theory Spec2Isabelle
  imports Main
begin

section \<open>Python values, errors and strings\<close>

text \<open>
  The loaders of \<^verbatim>\<open>src/readers/loaders/excel_loader.py\<close> handle sheet keys, cell values and
  metadata values that are Python integers or strings. Exceptions are values of type
  \<open>error\<close>; a call returns \<open>error + result\<close>, \<open>Inl\<close> being the raised exception.
  \<open>ReadError\<close> stands for whatever \<^verbatim>\<open>pd.read_excel\<close> raises.
\<close>

datatype pyval = PInt int | PStr string

datatype error = ImportError string | ValueError string | TypeError string | ReadError string

text \<open>\<^verbatim>\<open>str(n)\<close> of an integer: its decimal digits, with a minus sign when negative.\<close>

fun str_nat :: "nat \<Rightarrow> string" where
  "str_nat n =
     (if n < 10 then [''0123456789'' ! n]
      else str_nat (n div 10) @ [''0123456789'' ! (n mod 10)])"

declare str_nat.simps [simp del]

definition str_int :: "int \<Rightarrow> string" where
  "str_int i = (if i < 0 then CHR ''-'' # str_nat (nat (- i)) else str_nat (nat i))"

fun py_str :: "pyval \<Rightarrow> string" where
  "py_str (PInt i) = str_int i"
| "py_str (PStr s) = s"

text \<open>
  A \<open>char\<close> is read as a code point below 256. \<^verbatim>\<open>str.strip()\<close> removes the characters
  for which \<^verbatim>\<open>str.isspace()\<close> holds; in that range they are 9..13, 28..32, 133 and 160.
\<close>

definition isspace :: "char \<Rightarrow> bool" where
  "isspace c = ((of_char c :: nat) \<in> {9, 10, 11, 12, 13, 28, 29, 30, 31, 32, 133, 160})"

definition strip :: "string \<Rightarrow> string" where
  "strip s = rev (dropWhile isspace (rev (dropWhile isspace s)))"

text \<open>\<^verbatim>\<open>sep.join(items)\<close> on items that are all strings.\<close>

fun join :: "string \<Rightarrow> string list \<Rightarrow> string" where
  "join sep [] = []"
| "join sep [x] = x"
| "join sep (x # y # ys) = x @ sep @ join sep (y # ys)"

text \<open>
  \<^verbatim>\<open>sep.join(items)\<close> on arbitrary items: Python raises TypeError at the first item
  that is not a string, naming its position.
\<close>

fun check_str_items :: "nat \<Rightarrow> pyval list \<Rightarrow> error + string list" where
  "check_str_items i [] = Inr []"
| "check_str_items i (PStr s # xs) =
     (case check_str_items (Suc i) xs of Inl e \<Rightarrow> Inl e | Inr ss \<Rightarrow> Inr (s # ss))"
| "check_str_items i (PInt n # xs) =
     Inl (TypeError (''sequence item '' @ str_nat i @ '': expected str instance, int found''))"

definition py_join :: "string \<Rightarrow> pyval list \<Rightarrow> error + string" where
  "py_join sep items =
     (case check_str_items 0 items of Inl e \<Rightarrow> Inl e | Inr ss \<Rightarrow> Inr (join sep ss))"

text \<open>A generator of fallible items, consumed in order: the first exception ends it.\<close>

fun collect :: "(error + 'a) list \<Rightarrow> error + 'a list" where
  "collect [] = Inr []"
| "collect (Inl e # xs) = Inl e"
| "collect (Inr v # xs) = (case collect xs of Inl e \<Rightarrow> Inl e | Inr vs \<Rightarrow> Inr (v # vs))"

text \<open>
  \<^verbatim>\<open>range(0, stop, step)\<close>: a zero step raises ValueError, a negative step gives the
  empty range, a positive step gives \<open>0, step, 2 * step, ...\<close> below \<open>stop\<close>.
\<close>

definition py_range :: "nat \<Rightarrow> int \<Rightarrow> error + nat list" where
  "py_range stop step =
     (if step = 0 then Inl (ValueError ''range() arg 3 must not be zero'')
      else if step < 0 then Inr []
      else Inr (map (\<lambda>k. k * nat step) [0 ..< (stop + nat step - 1) div nat step]))"

text \<open>The slice \<^verbatim>\<open>xs[i:j]\<close> for \<open>0 \<le> i\<close>; Python clips it to the list.\<close>

definition slice :: "'a list \<Rightarrow> nat \<Rightarrow> nat \<Rightarrow> 'a list" where
  "slice xs i j = take (j - i) (drop i xs)"

section \<open>Data frames\<close>

text \<open>
  A cell of a DataFrame is missing (\<open>None\<close>: NaN, None, NaT) or holds a value. A frame
  is the list of its rows (\<^verbatim>\<open>df.values\<close>). \<^verbatim>\<open>pd.read_excel\<close> is the external
  collaborator: both loaders call it with \<^verbatim>\<open>sheet_name\<close> equal to None or to a list, for
  which pandas returns a dict from sheet key to DataFrame. The dict is modelled by its items
  in insertion order, which is the order \<^verbatim>\<open>dfs.keys()\<close> iterates in.
\<close>

type_synonym cell = "pyval option"

type_synonym frame = "cell list list"

record path =
  parent :: string
  name :: string

type_synonym read_excel =
  "path \<Rightarrow> pyval list option \<Rightarrow> (string \<times> pyval) list \<Rightarrow> error + (pyval \<times> frame) list"

definition isna :: "cell \<Rightarrow> bool" where
  "isna c = (c = None)"

text \<open>\<^verbatim>\<open>df.dropna(axis=0, how="all")\<close>: a row stays when some cell of it is not missing.\<close>

definition dropna_all :: "frame \<Rightarrow> frame" where
  "dropna_all df = filter (\<lambda>row. list_ex (\<lambda>c. \<not> isna c) row) df"

text \<open>\<^verbatim>\<open>df.fillna(v)\<close>: every missing cell becomes \<open>v\<close>.\<close>

definition fillna :: "pyval \<Rightarrow> frame \<Rightarrow> frame" where
  "fillna v df = map (map (\<lambda>c. case c of None \<Rightarrow> Some v | Some x \<Rightarrow> Some x)) df"

text \<open>\<^verbatim>\<open>df.values.astype(str).tolist()\<close>: \<^verbatim>\<open>str\<close> of every cell; of NaN it is \<^verbatim>\<open>nan\<close>.\<close>

definition values_astype_str :: "frame \<Rightarrow> string list list" where
  "values_astype_str df = map (map (\<lambda>c. case c of None \<Rightarrow> ''nan'' | Some v \<Rightarrow> py_str v)) df"

text \<open>Lines 192 to 195 of the source (and 90 to 93 of the legacy loader): the cleaned rows.\<close>

definition cleaned_rows :: "frame \<Rightarrow> string list list" where
  "cleaned_rows df = values_astype_str (fillna (PStr '''') (dropna_all df))"

section \<open>Readers and documents\<close>

text \<open>
  Both reader classes store the pandas options and the two joiners; \<^verbatim>\<open>ExcelReader\<close>
  adds the batch size and the token budget. A joiner given as the empty string is
  replaced by its default.
\<close>

record PandasExcelReader =
  pandas_config :: "(string \<times> pyval) list"
  row_joiner :: string
  col_joiner :: string

record ExcelReader = PandasExcelReader +
  rows_per_doc :: int
  max_words_per_page :: int

definition PandasExcelReader_init ::
  "(string \<times> pyval) list option \<Rightarrow> string \<Rightarrow> string \<Rightarrow> PandasExcelReader" where
  "PandasExcelReader_init config rj cj =
     \<lparr> pandas_config = (case config of None \<Rightarrow> [] | Some c \<Rightarrow> c),
       row_joiner = (if rj \<noteq> [] then rj else [CHR 0x0A]),
       col_joiner = (if cj \<noteq> [] then cj else '' '') \<rparr>"

definition ExcelReader_init ::
  "(string \<times> pyval) list option \<Rightarrow> string \<Rightarrow> string \<Rightarrow> int \<Rightarrow> int \<Rightarrow> ExcelReader" where
  "ExcelReader_init config rj cj n m =
     \<lparr> pandas_config = (case config of None \<Rightarrow> [] | Some c \<Rightarrow> c),
       row_joiner = (if rj \<noteq> [] then rj else [CHR 0x0A]),
       col_joiner = (if cj \<noteq> [] then cj else '' ''),
       rows_per_doc = n,
       max_words_per_page = m \<rparr>"

record document =
  doc_text :: string
  doc_metadata :: "string \<rightharpoonup> pyval"

datatype sheet_selector = One pyval | Many "pyval list"

definition normalize_sheet_name :: "sheet_selector option \<Rightarrow> pyval list option" where
  "normalize_sheet_name sheet_name =
     (case sheet_name of
        None \<Rightarrow> None
      | Some (One v) \<Rightarrow> Some [v]
      | Some (Many vs) \<Rightarrow> Some vs)"

definition import_error :: error where
  "import_error = ImportError ''install pandas using `pip3 install pandas` to use this loader''"

section \<open>The legacy loader: PandasExcelReader.load_data\<close>

text \<open>
  One sheet of lines 86 to 94: an optional row holding the key, then the cleaned rows.
  The key is appended as it is, so it may be an integer; \<^verbatim>\<open>dropna\<close> is applied twice.
\<close>

definition legacy_sheet :: "bool \<Rightarrow> pyval \<times> frame \<Rightarrow> pyval list list" where
  "legacy_sheet include_sheetname kd =
     (if include_sheetname then [[fst kd]] else [])
       @ map (map PStr) (cleaned_rows (dropna_all (snd kd)))"

definition PandasExcelReader_load_data ::
  "read_excel option \<Rightarrow> PandasExcelReader \<Rightarrow> path \<Rightarrow> bool \<Rightarrow> sheet_selector option
     \<Rightarrow> (string \<rightharpoonup> pyval) option \<Rightarrow> error + document list" where
  "PandasExcelReader_load_data pd self file include_sheetname sheet_name extra_info =
     (case pd of
        None \<Rightarrow> Inl import_error
      | Some read_excel \<Rightarrow>
          (case read_excel file (normalize_sheet_name sheet_name) (pandas_config self) of
             Inl e \<Rightarrow> Inl e
           | Inr dfs \<Rightarrow>
               (let text_list = concat (map (legacy_sheet include_sheetname) dfs) in
                case collect (map (py_join (col_joiner self)) text_list) of
                  Inl e \<Rightarrow> Inl e
                | Inr lines \<Rightarrow>
                    Inr [\<lparr> doc_text = join (row_joiner self) lines,
                           doc_metadata =
                             (case extra_info of None \<Rightarrow> Map.empty | Some m \<Rightarrow> m) \<rparr>])))"

section \<open>The batching loader: ExcelReader.load_data\<close>

text \<open>
  \<^verbatim>\<open>split_text\<close> is imported from \<^verbatim>\<open>src.readers.utils\<close>, which is not among the
  source files; the loader is modelled for any splitting function, passed as \<open>split\<close>.
\<close>

type_synonym splitter = "string \<Rightarrow> int \<Rightarrow> string list"

text \<open>Lines 201 to 203: every row is joined and stripped, the rows are joined, the whole is stripped.\<close>

definition render :: "('a ExcelReader_scheme) \<Rightarrow> string list list \<Rightarrow> string" where
  "render self batch_rows =
     strip (join (row_joiner self) (map (\<lambda>row. strip (join (col_joiner self) row)) batch_rows))"

text \<open>
  Lines 206 to 217: the document of segment \<open>c\<close> with index \<open>c_i\<close>. In the dict display the
  entries of \<^verbatim>\<open>**extra_info\<close> come last, so they replace generated entries of the same key.
\<close>

definition segment_document ::
  "bool \<Rightarrow> path \<Rightarrow> (string \<rightharpoonup> pyval) \<Rightarrow> nat \<Rightarrow> pyval \<Rightarrow> nat \<Rightarrow> nat \<Rightarrow> nat \<times> string \<Rightarrow> document" where
  "segment_document include_sheetname file extra_info idx key i n ic =
     \<lparr> doc_text =
         (if include_sheetname
          then ''(Sheet '' @ py_str key @ '' of file '' @ name file @ '')'' @ [CHR 0x0A] @ snd ic
          else snd ic),
       doc_metadata =
         [''page_label'' \<mapsto> PInt (int idx + 1),
          ''sheet_name'' \<mapsto> key,
          ''batch_start_row'' \<mapsto> PInt (int i + 1),
          ''batch_end_row'' \<mapsto> PInt (int i + int n),
          ''content_index'' \<mapsto> PInt (int (fst ic) + 1)] ++ extra_info \<rparr>"

text \<open>Lines 198 to 217: the documents of the batch that starts at row index \<open>i\<close>.\<close>

definition batch_documents ::
  "splitter \<Rightarrow> ExcelReader \<Rightarrow> bool \<Rightarrow> path \<Rightarrow> (string \<rightharpoonup> pyval) \<Rightarrow> nat \<Rightarrow> pyval
     \<Rightarrow> string list list \<Rightarrow> nat \<Rightarrow> document list" where
  "batch_documents split self include_sheetname file extra_info idx key rows i =
     (let batch_rows = slice rows i (i + nat (rows_per_doc self));
          content = render self batch_rows;
          contents = split content (max_words_per_page self)
      in map (segment_document include_sheetname file extra_info idx key i (length batch_rows))
           (enumerate 0 contents))"

text \<open>Lines 191 to 217: the documents of the sheet with ordinal \<open>idx\<close>.\<close>

definition sheet_documents ::
  "splitter \<Rightarrow> ExcelReader \<Rightarrow> bool \<Rightarrow> path \<Rightarrow> (string \<rightharpoonup> pyval) \<Rightarrow> nat \<Rightarrow> pyval \<times> frame
     \<Rightarrow> error + document list" where
  "sheet_documents split self include_sheetname file extra_info idx kd =
     (let rows = cleaned_rows (snd kd) in
      case py_range (length rows) (rows_per_doc self) of
        Inl e \<Rightarrow> Inl e
      | Inr starts \<Rightarrow>
          Inr (concat (map (batch_documents split self include_sheetname file extra_info idx
                              (fst kd) rows) starts)))"

text \<open>Line 190: the loop over the sheets; an exception in one sheet ends the call.\<close>

fun sheets_loop ::
  "splitter \<Rightarrow> ExcelReader \<Rightarrow> bool \<Rightarrow> path \<Rightarrow> (string \<rightharpoonup> pyval) \<Rightarrow> nat
     \<Rightarrow> (pyval \<times> frame) list \<Rightarrow> error + document list" where
  "sheets_loop split self include_sheetname file extra_info idx [] = Inr []"
| "sheets_loop split self include_sheetname file extra_info idx (kd # rest) =
     (case sheet_documents split self include_sheetname file extra_info idx kd of
        Inl e \<Rightarrow> Inl e
      | Inr docs \<Rightarrow>
          (case sheets_loop split self include_sheetname file extra_info (Suc idx) rest of
             Inl e \<Rightarrow> Inl e
           | Inr others \<Rightarrow> Inr (docs @ others)))"

definition ExcelReader_load_data ::
  "read_excel option \<Rightarrow> splitter \<Rightarrow> ExcelReader \<Rightarrow> path \<Rightarrow> bool \<Rightarrow> sheet_selector option
     \<Rightarrow> (string \<rightharpoonup> pyval) option \<Rightarrow> error + document list" where
  "ExcelReader_load_data pd split self file include_sheetname sheet_name extra_info =
     (case pd of
        None \<Rightarrow> Inl import_error
      | Some read_excel \<Rightarrow>
          (case read_excel file (normalize_sheet_name sheet_name) (pandas_config self) of
             Inl e \<Rightarrow> Inl e
           | Inr dfs \<Rightarrow>
               sheets_loop split self include_sheetname file
                 (case extra_info of None \<Rightarrow> Map.empty | Some m \<Rightarrow> m) 0 dfs))"

section \<open>The token-budget split\<close>

text \<open>
  Modelled from the spec: \<^verbatim>\<open>split_text\<close> of \<^verbatim>\<open>src/readers/utils.py\<close> is missing from
  the source files. The spec says that it splits the rendered string into segments, each
  a slice of the text whose token count does not exceed the configured maximum, in reading
  order and without dropping content, and that an empty rendered text gives zero segments.
  The loader passes its \<^verbatim>\<open>max_words_per_page\<close> as the budget (lines 134 and 204), so a
  token is read as a word: a maximal run of characters that are not whitespace. The token
  count of a string is the number of its words, counted from left to right; \<open>inw\<close> tells
  whether the character before was part of a word.
\<close>

fun count_from :: "bool \<Rightarrow> string \<Rightarrow> nat" where
  "count_from inw [] = 0"
| "count_from inw (c # cs) =
     (if isspace c then count_from False cs
      else (if inw then 0 else 1) + count_from True cs)"

text \<open>
  Modelled from the spec: the token count of a segment, for the missing \<^verbatim>\<open>split_text\<close>;
  the number of words of the string.
\<close>

definition token_count :: "string \<Rightarrow> nat" where
  "token_count s = count_from False s"

text \<open>
  Modelled from the spec: the pieces the missing \<^verbatim>\<open>split_text\<close> cuts the text into, so that
  no character is lost. A new piece starts where a word starts after whitespace: a piece
  is a word together with the whitespace that follows it (whitespace at the very start of
  the text is a piece of its own).
\<close>

fun word_pieces :: "string \<Rightarrow> string list" where
  "word_pieces [] = []"
| "word_pieces [c] = [[c]]"
| "word_pieces (c # d # cs) =
     (if isspace c \<and> \<not> isspace d then [c] # word_pieces (d # cs)
      else (case word_pieces (d # cs) of
              [] \<Rightarrow> [[c]]
            | p # ps \<Rightarrow> (c # p) # ps))"

text \<open>
  Modelled from the spec: the grouping of the missing \<^verbatim>\<open>split_text\<close>; consecutive runs of
  \<open>n\<close> items, the last run possibly shorter. With \<open>n = 0\<close> no item fits in a run.
\<close>

fun chunks :: "nat \<Rightarrow> 'a list \<Rightarrow> 'a list list" where
  "chunks n xs = (if n = 0 \<or> xs = [] then [] else take n xs # chunks n (drop n xs))"

declare chunks.simps [simp del]

text \<open>
  Modelled from the spec: \<^verbatim>\<open>split_text(content, max_tokens)\<close> (missing from the source
  files). The pieces of the text are grouped, in reading order, into runs of at most
  \<open>max_tokens\<close> pieces, and a segment is the concatenation of one run. The spec's two
  demands, a token count within the budget and no content dropped, cannot both be met
  for a budget below one and a text with a word; the budget is kept, so no segment is
  produced there.
\<close>

definition split_text :: splitter where
  "split_text content max_tokens = map concat (chunks (nat max_tokens) (word_pieces content))"

section \<open>The spec's wording of two renderings\<close>

text \<open>
  The rendering of a batch as the spec words it: join each row's cells with the
  column-joiner, join the rows with the row-joiner, trim the whole string.
\<close>

definition spec_render :: "string \<Rightarrow> string \<Rightarrow> string list list \<Rightarrow> string" where
  "spec_render rj cj batch_rows = strip (join rj (map (join cj) batch_rows))"

text \<open>
  The text of the legacy document as the spec words it: per sheet an optional line with
  the sheet name and then the cleaned rows, each joined cell-wise with the column-joiner;
  the lines of all sheets, in source order, joined with the row-joiner.
\<close>

definition spec_legacy_lines :: "string \<Rightarrow> bool \<Rightarrow> pyval \<times> frame \<Rightarrow> string list" where
  "spec_legacy_lines cj include_sheetname kd =
     (if include_sheetname then [py_str (fst kd)] else []) @ map (join cj) (cleaned_rows (snd kd))"

definition spec_legacy_text :: "string \<Rightarrow> string \<Rightarrow> bool \<Rightarrow> (pyval \<times> frame) list \<Rightarrow> string" where
  "spec_legacy_text rj cj include_sheetname dfs =
     join rj (concat (map (spec_legacy_lines cj include_sheetname) dfs))"

section \<open>Auxiliary lemmas\<close>

lemma ceil_mult_bounds:
  assumes "0 < (s::nat)"
  shows "n \<le> ((n + s - 1) div s) * s" and "((n + s - 1) div s) * s \<le> n + s - 1"
proof -
  have a: "(n + s - 1) div s * s + (n + s - 1) mod s = n + s - 1" by simp
  have b: "(n + s - 1) mod s < s" using assms by simp
  show "n \<le> ((n + s - 1) div s) * s" using a b by linarith
  show "((n + s - 1) div s) * s \<le> n + s - 1" using a by linarith
qed

lemma start_in_range:
  assumes "0 < (s::nat)" "k < (n + s - 1) div s"
  shows "k * s < n"
proof -
  have "Suc k * s \<le> ((n + s - 1) div s) * s"
    using assms(2) by (intro mult_le_mono1) simp
  then have "Suc k * s \<le> n + s - 1"
    using ceil_mult_bounds(2)[OF assms(1), of n] by (rule le_trans)
  then have "k * s + s \<le> n + s - 1" by simp
  with assms(1) show ?thesis by linarith
qed

lemma not_last_full:
  assumes "0 < (s::nat)" "Suc k < (n + s - 1) div s"
  shows "k * s + s \<le> n"
proof -
  have "Suc (Suc k) * s \<le> ((n + s - 1) div s) * s"
    using assms(2) by (intro mult_le_mono1) simp
  then have "Suc (Suc k) * s \<le> n + s - 1"
    using ceil_mult_bounds(2)[OF assms(1), of n] by (rule le_trans)
  then have "k * s + s + s \<le> n + s - 1" by simp
  with assms(1) show ?thesis by linarith
qed


lemma chunks_length: "g \<in> set (chunks n xs) \<Longrightarrow> length g \<le> n \<and> g \<noteq> []"
proof (induction n xs rule: chunks.induct)
  case (1 n xs)
  show ?case
  proof (cases "n = 0 \<or> xs = []")
    case True
    with 1(2) show ?thesis by (subst (asm) chunks.simps) simp
  next
    case False
    with 1(2) have "g = take n xs \<or> g \<in> set (chunks n (drop n xs))"
      by (subst (asm) chunks.simps) simp
    with False 1(1) show ?thesis by auto
  qed
qed

lemma segment_document_metadata:
  "doc_metadata (segment_document inc file extra idx key i n ic) k =
     (case extra k of
        Some v \<Rightarrow> Some v
      | None \<Rightarrow>
          [''page_label'' \<mapsto> PInt (int idx + 1),
           ''sheet_name'' \<mapsto> key,
           ''batch_start_row'' \<mapsto> PInt (int i + 1),
           ''batch_end_row'' \<mapsto> PInt (int i + int n),
           ''content_index'' \<mapsto> PInt (int (fst ic) + 1)] k)"
  by (simp add: segment_document_def map_add_def)

lemma segment_document_dom:
  "dom (doc_metadata (segment_document inc file extra idx key i n ic)) =
     {''page_label'', ''sheet_name'', ''batch_start_row'', ''batch_end_row'', ''content_index''}
       \<union> dom extra"
  by (auto simp: segment_document_def)

lemma batch_documents_segments:
  "d \<in> set (batch_documents split self inc file extra idx key rows i) \<Longrightarrow>
     \<exists>ic. d = segment_document inc file extra idx key i
                 (length (slice rows i (i + nat (rows_per_doc self)))) ic"
  by (auto simp: batch_documents_def Let_def)

lemma sheet_documents_segments:
  assumes "sheet_documents split self inc file extra idx kd = Inr docs" "d \<in> set docs"
  shows "\<exists>i n ic. d = segment_document inc file extra idx (fst kd) i n ic"
proof -
  from assms obtain starts where
    "docs = concat (map (batch_documents split self inc file extra idx (fst kd)
                           (cleaned_rows (snd kd))) starts)"
    by (auto simp: sheet_documents_def Let_def split: sum.splits)
  with assms(2) obtain i where
    "d \<in> set (batch_documents split self inc file extra idx (fst kd) (cleaned_rows (snd kd)) i)"
    by auto
  from batch_documents_segments[OF this] show ?thesis by blast
qed

lemma sheets_loop_segments:
  "sheets_loop split self inc file extra idx dfs = Inr docs \<Longrightarrow> d \<in> set docs \<Longrightarrow>
     \<exists>j key i n ic. d = segment_document inc file extra j key i n ic"
proof (induction dfs arbitrary: idx docs)
  case Nil
  then show ?case by simp
next
  case (Cons kd rest)
  from Cons.prems(1) obtain ds others where
    ds: "sheet_documents split self inc file extra idx kd = Inr ds" and
    os: "sheets_loop split self inc file extra (Suc idx) rest = Inr others" and
    docs: "docs = ds @ others"
    by (auto split: sum.splits)
  from Cons.prems(2) docs consider "d \<in> set ds" | "d \<in> set others" by auto
  then show ?case
  proof cases
    case 1
    from sheet_documents_segments[OF ds 1] show ?thesis by blast
  next
    case 2
    from Cons.IH[OF os 2] show ?thesis .
  qed
qed

lemma load_data_segments:
  assumes "ExcelReader_load_data pd split self file inc sel extra_info = Inr docs" "d \<in> set docs"
  shows "\<exists>j key i n ic. d = segment_document inc file
           (case extra_info of None \<Rightarrow> Map.empty | Some m \<Rightarrow> m) j key i n ic"
proof -
  from assms(1) obtain rd dfs where
    "sheets_loop split self inc file (case extra_info of None \<Rightarrow> Map.empty | Some m \<Rightarrow> m) 0 dfs = Inr docs"
    by (auto simp: ExcelReader_load_data_def split: option.splits sum.splits)
  from sheets_loop_segments[OF this assms(2)] show ?thesis .
qed

lemma py_range_pos:
  "1 \<le> step \<Longrightarrow>
     py_range stop step = Inr (map (\<lambda>k. k * nat step) [0 ..< (stop + nat step - 1) div nat step])"
  by (simp add: py_range_def)

lemma concat_slices_take:
  "concat (map (\<lambda>k. slice xs (k * s) (k * s + s)) [0 ..< m]) = take (m * s) xs"
proof (induction m)
  case 0
  then show ?case by simp
next
  case (Suc m)
  have "take (m * s) xs @ take s (drop (m * s) xs) = take (m * s + s) xs"
    by (simp add: take_add)
  with Suc show ?case by (simp add: slice_def add.commute)
qed

lemma slices_partition:
  assumes "0 < s"
  shows "concat (map (\<lambda>i. slice xs i (i + s))
           (map (\<lambda>k. k * s) [0 ..< (length xs + s - 1) div s])) = xs"
proof -
  have "concat (map (\<lambda>i. slice xs i (i + s)) (map (\<lambda>k. k * s) [0 ..< (length xs + s - 1) div s]))
        = concat (map (\<lambda>k. slice xs (k * s) (k * s + s)) [0 ..< (length xs + s - 1) div s])"
    by (simp add: comp_def)
  also have "\<dots> = take ((length xs + s - 1) div s * s) xs"
    by (rule concat_slices_take)
  also have "\<dots> = xs"
    using ceil_mult_bounds(1)[OF assms, of "length xs"] by simp
  finally show ?thesis .
qed

lemma slice_length_inner:
  assumes "0 < s" "k < (length xs + s - 1) div s"
  shows "slice xs (k * s) (k * s + s) \<noteq> []" and "length (slice xs (k * s) (k * s + s)) \<le> s"
  using start_in_range[OF assms] assms(1) by (simp_all add: slice_def)

lemma slice_length_full:
  assumes "0 < s" "Suc k < (length xs + s - 1) div s"
  shows "length (slice xs (k * s) (k * s + s)) = s"
  using not_last_full[OF assms] by (simp add: slice_def)

lemma butlast_starts:
  "butlast (map (\<lambda>k. k * (s::nat)) [0 ..< m]) = map (\<lambda>k. k * s) [0 ..< m - 1]"
  by (cases m) (simp_all add: map_butlast[symmetric])

lemma sheet_documents_pos:
  assumes "1 \<le> rows_per_doc self"
  shows "sheet_documents split self inc file extra idx kd =
     Inr (concat (map (batch_documents split self inc file extra idx (fst kd) (cleaned_rows (snd kd)))
            (map (\<lambda>k. k * nat (rows_per_doc self))
               [0 ..< (length (cleaned_rows (snd kd)) + nat (rows_per_doc self) - 1)
                        div nat (rows_per_doc self)])))"
  by (simp add: sheet_documents_def Let_def py_range_pos[OF assms])

lemma batch_documents_rows:
  assumes "d \<in> set (batch_documents split self inc file extra idx key rows i)"
    and "extra ''batch_start_row'' = None" and "extra ''batch_end_row'' = None"
  shows "doc_metadata d ''batch_start_row'' = Some (PInt (int i + 1))"
    and "doc_metadata d ''batch_end_row'' =
           Some (PInt (int i + int (length (slice rows i (i + nat (rows_per_doc self))))))"
proof -
  from batch_documents_segments[OF assms(1)] obtain ic where
    d: "d = segment_document inc file extra idx key i
              (length (slice rows i (i + nat (rows_per_doc self)))) ic" ..
  show "doc_metadata d ''batch_start_row'' = Some (PInt (int i + 1))"
    by (simp add: d segment_document_metadata assms(2))
  show "doc_metadata d ''batch_end_row'' =
           Some (PInt (int i + int (length (slice rows i (i + nat (rows_per_doc self))))))"
    by (simp add: d segment_document_metadata assms(3))
qed


lemma slice_by_length:
  "slice xs i (i + length (slice xs i (i + s))) = slice xs i (i + s)"
  by (simp add: slice_def min_def)

lemma sheets_loop_zero:
  assumes "rows_per_doc self = 0" "dfs \<noteq> []"
  shows "sheets_loop split self inc file extra idx dfs
           = Inl (ValueError ''range() arg 3 must not be zero'')"
  using assms by (cases dfs) (simp_all add: sheet_documents_def py_range_def)

lemma sheets_loop_neg:
  "rows_per_doc self < 0 \<Longrightarrow> sheets_loop split self inc file extra idx dfs = Inr []"
  by (induction dfs arbitrary: idx) (simp_all add: sheet_documents_def py_range_def)

lemma sheets_loop_pos:
  "1 \<le> rows_per_doc self \<Longrightarrow> \<exists>docs. sheets_loop split self inc file extra idx dfs = Inr docs"
proof (induction dfs arbitrary: idx)
  case Nil
  then show ?case by simp
next
  case (Cons kd rest)
  from Cons.IH[OF Cons.prems, of "Suc idx"] obtain others where
    "sheets_loop split self inc file extra (Suc idx) rest = Inr others" ..
  then show ?case by (simp add: sheet_documents_pos[OF Cons.prems])
qed

lemma cleaned_rows_filter:
  "cleaned_rows df =
     map (map (\<lambda>c. case c of None \<Rightarrow> [] | Some v \<Rightarrow> py_str v))
       (filter (\<lambda>row. \<exists>c\<in>set row. c \<noteq> None) df)"
proof -
  have cell: "(case (case c of None \<Rightarrow> Some (PStr []) | Some x \<Rightarrow> Some x) of
                 None \<Rightarrow> ''nan'' | Some v \<Rightarrow> py_str v)
              = (case c of None \<Rightarrow> [] | Some v \<Rightarrow> py_str v)" for c :: cell
    by (cases c) simp_all
  have keep: "list_ex (\<lambda>c. \<not> isna c) row = (\<exists>c\<in>set row. c \<noteq> None)" for row
    by (simp add: list_ex_iff isna_def)
  show ?thesis
    by (simp add: cleaned_rows_def values_astype_str_def fillna_def dropna_all_def comp_def
        cell keep)
qed

lemma cleaned_rows_length:
  "length (cleaned_rows df) + length (filter (\<lambda>row. \<forall>c\<in>set row. c = None) df) = length df"
proof -
  have "length (filter (\<lambda>row. \<exists>c\<in>set row. c \<noteq> None) df)
          + length (filter (\<lambda>row. \<not> (\<exists>c\<in>set row. c \<noteq> None)) df) = length df"
    by (rule sum_length_filter_compl)
  then show ?thesis by (simp add: cleaned_rows_filter)
qed

lemma map_snd_enumerate_fun:
  "map (\<lambda>ic. f (snd ic)) (enumerate n xs) = map f xs"
  by (induction xs arbitrary: n) simp_all

lemma batch_documents_text:
  "map doc_text (batch_documents split self inc file extra idx key rows i) =
     map (\<lambda>c. (if inc then ''(Sheet '' @ py_str key @ '' of file '' @ name file @ '')'' @ [CHR 0x0A]
                else []) @ c)
       (split (render self (slice rows i (i + nat (rows_per_doc self)))) (max_words_per_page self))"
proof -
  let ?pre = "if inc then ''(Sheet '' @ py_str key @ '' of file '' @ name file @ '')'' @ [CHR 0x0A]
              else []"
  have "map doc_text (map (segment_document inc file extra idx key i n) (enumerate 0 cs))
          = map (\<lambda>ic. ?pre @ snd ic) (enumerate 0 cs)" for n cs
    by (cases inc) (simp_all add: segment_document_def comp_def)
  also have "map (\<lambda>ic. ?pre @ snd ic) (enumerate 0 cs) = map (\<lambda>c. ?pre @ c) cs" for cs
    by (rule map_snd_enumerate_fun)
  finally show ?thesis
    by (simp only: batch_documents_def Let_def)
qed

lemma dropna_all_idem: "dropna_all (dropna_all df) = dropna_all df"
  by (simp add: dropna_all_def)

lemma cleaned_rows_dropna: "cleaned_rows (dropna_all df) = cleaned_rows df"
  by (simp add: cleaned_rows_def dropna_all_idem)

lemma check_str_items_strings: "check_str_items i (map PStr ss) = Inr ss"
  by (induction ss arbitrary: i) simp_all

lemma py_join_strings: "py_join sep (map PStr ss) = Inr (join sep ss)"
  by (simp add: py_join_def check_str_items_strings)

lemma py_join_single: "py_join sep [k] = Inr s \<Longrightarrow> s = py_str k"
  by (cases k) (simp_all add: py_join_def)

lemma collect_append:
  "collect (xs @ ys) = Inr zs \<Longrightarrow>
     \<exists>as bs. collect xs = Inr as \<and> collect ys = Inr bs \<and> zs = as @ bs"
proof (induction xs arbitrary: zs)
  case Nil
  then show ?case by simp
next
  case (Cons x xs)
  show ?case
  proof (cases x)
    case (Inl e)
    with Cons.prems show ?thesis by simp
  next
    case (Inr v)
    with Cons.prems obtain vs where vs: "collect (xs @ ys) = Inr vs" and zs: "zs = v # vs"
      by (auto split: sum.splits)
    from Cons.IH[OF vs] obtain as bs where
      "collect xs = Inr as" "collect ys = Inr bs" "vs = as @ bs" by blast
    with Inr zs show ?thesis by simp
  qed
qed

lemma collect_string_rows:
  "collect (map (py_join sep \<circ> map PStr) rows) = Inr (map (join sep) rows)"
  by (induction rows) (simp_all add: py_join_strings)

lemma legacy_sheet_lines:
  assumes "collect (map (py_join cj) (legacy_sheet inc kd)) = Inr ls"
  shows "ls = spec_legacy_lines cj inc kd"
proof (cases inc)
  case False
  with assms show ?thesis
    by (simp add: legacy_sheet_def spec_legacy_lines_def cleaned_rows_dropna collect_string_rows)
next
  case True
  with assms have "collect (py_join cj [fst kd]
                     # map (py_join cj) (map (map PStr) (cleaned_rows (snd kd)))) = Inr ls"
    by (simp add: legacy_sheet_def cleaned_rows_dropna)
  then obtain s where "py_join cj [fst kd] = Inr s" "ls = s # map (join cj) (cleaned_rows (snd kd))"
    by (cases "py_join cj [fst kd]") (simp_all add: collect_string_rows)
  with True py_join_single[of cj "fst kd" s] show ?thesis
    by (simp add: spec_legacy_lines_def)
qed

lemma legacy_lines:
  "collect (map (py_join cj) (concat (map (legacy_sheet inc) dfs))) = Inr ls \<Longrightarrow>
     ls = concat (map (spec_legacy_lines cj inc) dfs)"
proof (induction dfs arbitrary: ls)
  case Nil
  then show ?case by simp
next
  case (Cons kd dfs)
  from Cons.prems have
    "collect (map (py_join cj) (legacy_sheet inc kd)
              @ map (py_join cj) (concat (map (legacy_sheet inc) dfs))) = Inr ls"
    by simp
  from collect_append[OF this] obtain as bs where
    a: "collect (map (py_join cj) (legacy_sheet inc kd)) = Inr as" and
    b: "collect (map (py_join cj) (concat (map (legacy_sheet inc) dfs))) = Inr bs" and
    ls: "ls = as @ bs" by blast
  from legacy_sheet_lines[OF a] Cons.IH[OF b] ls show ?case by simp
qed


lemma count_from_True_le: "count_from True s \<le> count_from False s"
  by (cases s) simp_all

lemma count_from_append:
  "count_from b (xs @ ys) \<le> count_from b xs + count_from False ys"
proof (induction xs arbitrary: b)
  case Nil
  then show ?case by (cases b) (simp_all add: count_from_True_le)
next
  case (Cons c cs)
  show ?case
  proof (cases "isspace c")
    case True
    with Cons.IH[of False] show ?thesis by simp
  next
    case False
    with Cons.IH[of True] show ?thesis by simp
  qed
qed

lemma token_count_concat:
  "token_count (concat ss) \<le> sum_list (map token_count ss)"
proof (induction ss)
  case Nil
  then show ?case by (simp add: token_count_def)
next
  case (Cons s ss)
  have "token_count (s @ concat ss) \<le> token_count s + token_count (concat ss)"
    unfolding token_count_def by (rule count_from_append)
  with Cons show ?case by simp
qed

lemma token_count_pos: "(0 < token_count s) = (\<exists>c\<in>set s. \<not> isspace c)"
  unfolding token_count_def by (induction s) auto

lemma word_pieces_Nil: "(word_pieces s = []) = (s = [])"
  by (induction s rule: word_pieces.induct) (auto split: list.splits)

lemma word_pieces_head:
  "word_pieces (d # cs) = p # ps \<Longrightarrow> \<exists>q. p = d # q"
  by (cases cs) (auto split: if_splits list.splits)


lemma word_pieces_one_word:
  "p \<in> set (word_pieces s) \<Longrightarrow> count_from True p = 0"
proof (induction s arbitrary: p rule: word_pieces.induct)
  case 1
  then show ?case by simp
next
  case (2 c)
  then show ?case by simp
next
  case (3 c d cs)
  show ?case
  proof (cases "isspace c \<and> \<not> isspace d")
    case True
    with 3 show ?thesis by auto
  next
    case False
    from word_pieces_Nil[of "d # cs"] obtain q qs where q: "word_pieces (d # cs) = q # qs"
      by (cases "word_pieces (d # cs)") auto
    from word_pieces_head[OF q] obtain r where r: "q = d # r" ..
    from False q have "word_pieces (c # d # cs) = (c # q) # qs" by auto
    with "3.prems" have "p = c # q \<or> p \<in> set qs" by simp
    then show ?thesis
    proof
      assume p: "p = c # q"
      from "3.IH"(2)[OF False, of q] q have "count_from True q = 0" by simp
      with False p r show ?thesis by (cases "isspace c") auto
    next
      assume "p \<in> set qs"
      with "3.IH"(2)[OF False, of p] q show ?thesis by simp
    qed
  qed
qed

lemma piece_token_count: "p \<in> set (word_pieces s) \<Longrightarrow> token_count p \<le> 1"
proof -
  assume "p \<in> set (word_pieces s)"
  then have "count_from True p = 0" by (rule word_pieces_one_word)
  then show ?thesis unfolding token_count_def by (cases p) (auto split: if_splits)
qed

lemma chunks_subset: "g \<in> set (chunks n xs) \<Longrightarrow> set g \<subseteq> set xs"
proof (induction n xs rule: chunks.induct)
  case (1 n xs)
  show ?case
  proof (cases "n = 0 \<or> xs = []")
    case True
    with 1(2) show ?thesis by (subst (asm) chunks.simps) simp
  next
    case False
    with 1(2) have "g = take n xs \<or> g \<in> set (chunks n (drop n xs))"
      by (subst (asm) chunks.simps) simp
    then show ?thesis
    proof
      assume "g = take n xs"
      then show ?thesis by (simp add: set_take_subset)
    next
      assume "g \<in> set (chunks n (drop n xs))"
      with 1(1)[OF False] have "set g \<subseteq> set (drop n xs)" by simp
      also have "\<dots> \<subseteq> set xs" by (rule set_drop_subset)
      finally show ?thesis .
    qed
  qed
qed

lemma sum_list_le_length:
  "(\<And>x. x \<in> set xs \<Longrightarrow> f x \<le> (1::nat)) \<Longrightarrow> sum_list (map f xs) \<le> length xs"
proof (induction xs)
  case Nil
  then show ?case by simp
next
  case (Cons x xs)
  have "f x \<le> 1" by (rule Cons.prems) simp
  moreover have "sum_list (map f xs) \<le> length xs"
    by (rule Cons.IH) (rule Cons.prems, simp)
  ultimately show ?case by simp
qed

lemma split_text_budget:
  assumes "s \<in> set (split_text content max_tokens)"
  shows "int (token_count s) \<le> max_tokens"
proof -
  from assms obtain g where
    g: "g \<in> set (chunks (nat max_tokens) (word_pieces content))" and s: "s = concat g"
    by (auto simp: split_text_def)
  from chunks_length[OF g] have len: "length g \<le> nat max_tokens" and ne: "g \<noteq> []" by simp_all
  have "token_count p \<le> 1" if "p \<in> set g" for p
  proof -
    from that chunks_subset[OF g] have "p \<in> set (word_pieces content)" by blast
    then show ?thesis by (rule piece_token_count)
  qed
  then have "sum_list (map token_count g) \<le> length g" by (rule sum_list_le_length)
  with token_count_concat[of g] have "token_count s \<le> length g" by (simp add: s)
  with len have "token_count s \<le> nat max_tokens" by simp
  moreover from len ne have "0 < nat max_tokens" by (cases g) simp_all
  ultimately show ?thesis by linarith
qed


lemma split_text_empty: "split_text [] max_tokens = []"
  by (simp add: split_text_def chunks.simps)

text \<open>
  Whatever the splitting function: segments that respect a budget below one hold no word,
  so their concatenation cannot be a text with a word.
\<close>

lemma budget_below_one_unsatisfiable:
  assumes "max_tokens < 1" and "\<And>s. s \<in> set segments \<Longrightarrow> int (token_count s) \<le> max_tokens"
  shows "token_count (concat segments) = 0"
proof -
  have "\<And>s. s \<in> set segments \<Longrightarrow> token_count s = 0"
    using assms by fastforce
  then have "sum_list (map token_count segments) = 0" by simp
  with token_count_concat[of segments] show ?thesis by simp
qed

lemma strip_has_word:
  assumes "strip s \<noteq> []"
  shows "0 < token_count (strip s)"
proof -
  let ?t = "dropWhile isspace (rev (dropWhile isspace s))"
  from assms have ne: "?t \<noteq> []" by (simp add: strip_def)
  then have "\<not> isspace (hd ?t)" by (rule hd_dropWhile)
  moreover from ne have "hd ?t \<in> set (strip s)" by (simp add: strip_def)
  ultimately show ?thesis by (auto simp: token_count_pos)
qed

lemma render_budget_below_one:
  assumes "render self batch_rows \<noteq> []" and "max_tokens < 1"
    and "\<And>s. s \<in> set segments \<Longrightarrow> int (token_count s) \<le> max_tokens"
  shows "concat segments \<noteq> render self batch_rows"
proof
  assume eq: "concat segments = render self batch_rows"
  have "0 < token_count (render self batch_rows)"
    using assms(1) unfolding render_def by (rule strip_has_word)
  moreover have "token_count (concat segments) = 0"
    using assms(2,3) by (rule budget_below_one_unsatisfiable)
  ultimately show False by (simp add: eq)
qed

lemmas eval_defs = ExcelReader_load_data_def ExcelReader_init_def sheet_documents_def
  cleaned_rows_def dropna_all_def isna_def fillna_def values_astype_str_def py_range_def
  batch_documents_def slice_def render_def strip_def isspace_def normalize_sheet_name_def upt_rec

section \<open>Error handling\<close>

text \<open>
  C8. When pandas cannot be imported, both \<^verbatim>\<open>ExcelReader.load_data\<close> and
  \<^verbatim>\<open>PandasExcelReader.load_data\<close> raise ImportError with the message that asks to install
  pandas, whatever the other arguments are; the call yields the exception and no
  document list.
\<close>

theorem C8_import_error:
  "ExcelReader_load_data None split self file inc sel extra
     = Inl (ImportError ''install pandas using `pip3 install pandas` to use this loader'')
   \<and> PandasExcelReader_load_data None legacy file inc sel extra
     = Inl (ImportError ''install pandas using `pip3 install pandas` to use this loader'')"
  by (simp add: ExcelReader_load_data_def PandasExcelReader_load_data_def import_error_def)

section \<open>Metadata\<close>

text \<open>
  C1 (as amended). For every call to \<^verbatim>\<open>ExcelReader.load_data\<close> with a caller-supplied
  \<^verbatim>\<open>extra_info\<close> mapping that returns, the metadata of every emitted document holds every
  key of \<^verbatim>\<open>extra_info\<close> with the caller's value, also when the key is one of the generated
  keys, and its keys are the five generated keys together with those of \<^verbatim>\<open>extra_info\<close>.
\<close>

theorem C1_caller_keys_win:
  assumes "ExcelReader_load_data pd split self file inc sel (Some extra_info) = Inr docs"
    and "d \<in> set docs"
  shows "(\<forall>k\<in>dom extra_info. doc_metadata d k = extra_info k)
         \<and> dom (doc_metadata d) =
             {''page_label'', ''sheet_name'', ''batch_start_row'', ''batch_end_row'',
              ''content_index''} \<union> dom extra_info"
proof -
  from load_data_segments[OF assms] obtain j key i n ic where
    d: "d = segment_document inc file extra_info j key i n ic" by auto
  have "\<forall>k\<in>dom extra_info. doc_metadata d k = extra_info k"
    by (auto simp: d segment_document_metadata)
  moreover have "dom (doc_metadata d) =
             {''page_label'', ''sheet_name'', ''batch_start_row'', ''batch_end_row'',
              ''content_index''} \<union> dom extra_info"
    unfolding d by (rule segment_document_dom)
  ultimately show ?thesis by blast
qed

theorem C1_counterexample:
  "map_sum id (map (\<lambda>d. doc_metadata d ''page_label''))
     (ExcelReader_load_data
        (Some (\<lambda>file sheets config. Inr [(PStr ''Sheet1'', [[Some (PStr ''a'')]])]))
        (\<lambda>content max_tokens. [content])
        (ExcelReader_init None [] [] 1 2048)
        \<lparr>parent = ''data'', name = ''f.xlsx''\<rparr> True None
        (Some [''page_label'' \<mapsto> PStr ''x'']))
   = Inr [Some (PStr ''x'')]"
  by (simp add: eval_defs segment_document_def)

theorem C1_witness:
  "ExcelReader_load_data
        (Some (\<lambda>file sheets config. Inr [(PStr ''Sheet1'', [[Some (PStr ''a'')]])]))
        (\<lambda>content max_tokens. [content])
        (ExcelReader_init None [] [] 1 2048)
        \<lparr>parent = ''data'', name = ''f.xlsx''\<rparr> False None
        (Some [''source'' \<mapsto> PStr ''x''])
     = Inr [segment_document False \<lparr>parent = ''data'', name = ''f.xlsx''\<rparr>
              [''source'' \<mapsto> PStr ''x''] 0 (PStr ''Sheet1'') 0 1 (0, ''a'')]
   \<and> doc_metadata (segment_document False \<lparr>parent = ''data'', name = ''f.xlsx''\<rparr>
              [''source'' \<mapsto> PStr ''x''] 0 (PStr ''Sheet1'') 0 1 (0, ''a'')) ''source''
       = Some (PStr ''x'')
   \<and> dom (doc_metadata (segment_document False \<lparr>parent = ''data'', name = ''f.xlsx''\<rparr>
              [''source'' \<mapsto> PStr ''x''] 0 (PStr ''Sheet1'') 0 1 (0, ''a'')))
       = {''page_label'', ''sheet_name'', ''batch_start_row'', ''batch_end_row'',
          ''content_index'', ''source''}"
proof -
  let ?d = "segment_document False \<lparr>parent = ''data'', name = ''f.xlsx''\<rparr>
              [''source'' \<mapsto> PStr ''x''] 0 (PStr ''Sheet1'') 0 1 (0, ''a'')"
  have run: "ExcelReader_load_data
        (Some (\<lambda>file sheets config. Inr [(PStr ''Sheet1'', [[Some (PStr ''a'')]])]))
        (\<lambda>content max_tokens. [content])
        (ExcelReader_init None [] [] 1 2048)
        \<lparr>parent = ''data'', name = ''f.xlsx''\<rparr> False None
        (Some [''source'' \<mapsto> PStr ''x'']) = Inr [?d]"
    by (simp add: eval_defs)
  have mem: "?d \<in> set [?d]" by simp
  show ?thesis using run C1_caller_keys_win [OF run mem] by auto
qed

section \<open>Batching\<close>

text \<open>
  C6 (as amended). For every sheet and every call to \<^verbatim>\<open>ExcelReader.load_data\<close> with
  \<^verbatim>\<open>rows_per_doc\<close> at least 1, the batching range does not raise, the batches start at
  \<open>0, s, 2 * s, ...\<close> for \<open>s\<close> the batch size, their concatenation in order is the cleaned
  row sequence (no row dropped or duplicated), every batch is non-empty with at most \<open>s\<close>
  rows and every batch but the last has exactly \<open>s\<close> rows. When \<^verbatim>\<open>extra_info\<close> does not
  itself supply \<^verbatim>\<open>batch_start_row\<close> or \<^verbatim>\<open>batch_end_row\<close>, every document of a batch records
  integers \<open>a\<close> and \<open>e\<close> under these keys that are 1-based positions in the cleaned
  sequence: \<open>e - a + 1\<close> is the batch's row count and the rows \<open>a\<close> to \<open>e\<close> are the batch.
\<close>

theorem C6_batches_partition:
  assumes "1 \<le> rows_per_doc self"
  shows "\<exists>rows s starts.
      rows = cleaned_rows df \<and> s = nat (rows_per_doc self)
    \<and> py_range (length rows) (rows_per_doc self) = Inr starts
    \<and> starts = map (\<lambda>k. k * s) [0 ..< length starts]
    \<and> sheet_documents split self inc file extra idx (key, df)
        = Inr (concat (map (batch_documents split self inc file extra idx key rows) starts))
    \<and> concat (map (\<lambda>i. slice rows i (i + s)) starts) = rows
    \<and> (\<forall>i\<in>set starts. slice rows i (i + s) \<noteq> [] \<and> length (slice rows i (i + s)) \<le> s)
    \<and> (\<forall>i\<in>set (butlast starts). length (slice rows i (i + s)) = s)
    \<and> (extra ''batch_start_row'' = None \<longrightarrow> extra ''batch_end_row'' = None \<longrightarrow>
         (\<forall>i\<in>set starts. \<forall>d\<in>set (batch_documents split self inc file extra idx key rows i).
            \<exists>a e. doc_metadata d ''batch_start_row'' = Some (PInt a)
                \<and> doc_metadata d ''batch_end_row'' = Some (PInt e)
                \<and> 1 \<le> a
                \<and> e - a + 1 = int (length (slice rows i (i + s)))
                \<and> slice rows (nat (a - 1)) (nat e) = slice rows i (i + s)))"
proof -
  let ?rows = "cleaned_rows df"
  let ?s = "nat (rows_per_doc self)"
  let ?m = "(length ?rows + ?s - 1) div ?s"
  let ?starts = "map (\<lambda>k. k * ?s) [0 ..< ?m]"
  have s: "0 < ?s" using assms by simp
  have c1: "py_range (length ?rows) (rows_per_doc self) = Inr ?starts"
    by (rule py_range_pos[OF assms])
  have c2: "?starts = map (\<lambda>k. k * ?s) [0 ..< length ?starts]" by simp
  have c3: "sheet_documents split self inc file extra idx (key, df)
        = Inr (concat (map (batch_documents split self inc file extra idx key ?rows) ?starts))"
    using sheet_documents_pos[OF assms, where kd = "(key, df)"] by simp
  have c4: "concat (map (\<lambda>i. slice ?rows i (i + ?s)) ?starts) = ?rows"
    by (rule slices_partition[OF s])
  have c5: "\<forall>i\<in>set ?starts. slice ?rows i (i + ?s) \<noteq> [] \<and> length (slice ?rows i (i + ?s)) \<le> ?s"
    using slice_length_inner[OF s, of _ ?rows] by auto
  have c6: "\<forall>i\<in>set (butlast ?starts). length (slice ?rows i (i + ?s)) = ?s"
  proof -
    have "\<forall>k<?m - 1. length (slice ?rows (k * ?s) (k * ?s + ?s)) = ?s"
      using slice_length_full[OF s, of _ ?rows] by simp
    then have "\<forall>i\<in>set (map (\<lambda>k. k * ?s) [0 ..< ?m - 1]). length (slice ?rows i (i + ?s)) = ?s"
      by simp
    then show ?thesis by (simp only: butlast_starts)
  qed
  have c7: "extra ''batch_start_row'' = None \<longrightarrow> extra ''batch_end_row'' = None \<longrightarrow>
         (\<forall>i\<in>set ?starts. \<forall>d\<in>set (batch_documents split self inc file extra idx key ?rows i).
            \<exists>a e. doc_metadata d ''batch_start_row'' = Some (PInt a)
                \<and> doc_metadata d ''batch_end_row'' = Some (PInt e)
                \<and> 1 \<le> a
                \<and> e - a + 1 = int (length (slice ?rows i (i + ?s)))
                \<and> slice ?rows (nat (a - 1)) (nat e) = slice ?rows i (i + ?s))"
  proof (intro impI ballI)
    fix i d
    assume e1: "extra ''batch_start_row'' = None" and e2: "extra ''batch_end_row'' = None"
      and d: "d \<in> set (batch_documents split self inc file extra idx key ?rows i)"
    let ?a = "int i + 1"
    let ?e = "int i + int (length (slice ?rows i (i + ?s)))"
    have "doc_metadata d ''batch_start_row'' = Some (PInt ?a)"
      by (rule batch_documents_rows(1)[OF d e1 e2])
    moreover have "doc_metadata d ''batch_end_row'' = Some (PInt ?e)"
      by (rule batch_documents_rows(2)[OF d e1 e2])
    moreover have "1 \<le> ?a" by simp
    moreover have "?e - ?a + 1 = int (length (slice ?rows i (i + ?s)))" by simp
    moreover have "slice ?rows (nat (?a - 1)) (nat ?e) = slice ?rows i (i + ?s)"
      using slice_by_length[of ?rows i ?s] by (simp add: nat_add_distrib)
    ultimately show "\<exists>a e. doc_metadata d ''batch_start_row'' = Some (PInt a)
                \<and> doc_metadata d ''batch_end_row'' = Some (PInt e)
                \<and> 1 \<le> a
                \<and> e - a + 1 = int (length (slice ?rows i (i + ?s)))
                \<and> slice ?rows (nat (a - 1)) (nat e) = slice ?rows i (i + ?s)"
      by blast
  qed
  show ?thesis
    by (rule exI[of _ ?rows], rule exI[of _ ?s], rule exI[of _ ?starts])
      (intro conjI refl c1 c2 c3 c4 c5 c6 c7)
qed

theorem C6_counterexample:
  "map_sum id (map (\<lambda>d. (doc_metadata d ''batch_start_row'', doc_metadata d ''batch_end_row'')))
     (ExcelReader_load_data
        (Some (\<lambda>file sheets config. Inr [(PStr ''Sheet1'', [[Some (PStr ''a'')]])]))
        (\<lambda>content max_tokens. [content])
        (ExcelReader_init None [] [] 1 2048)
        \<lparr>parent = ''data'', name = ''f.xlsx''\<rparr> True None
        (Some [''batch_start_row'' \<mapsto> PInt 7]))
   = Inr [(Some (PInt 7), Some (PInt 1))]"
  by (simp add: eval_defs segment_document_def)


theorem C6_witness:
  "1 \<le> rows_per_doc (ExcelReader_init None [] [] 2 2048)
   \<and> cleaned_rows [[Some (PStr ''a'')], [None], [Some (PStr ''b'')], [Some (PStr ''c'')]]
       = [[''a''], [''b''], [''c'']]
   \<and> py_range (length (cleaned_rows [[Some (PStr ''a'')], [None], [Some (PStr ''b'')], [Some (PStr ''c'')]]))
         (rows_per_doc (ExcelReader_init None [] [] 2 2048)) = Inr [0, 2]
   \<and> concat (map (\<lambda>i. slice [[''a''], [''b''], [''c'']] i (i + 2)) [0, 2])
       = [[''a''], [''b''], [''c'']]
   \<and> length (slice [[''a''], [''b''], [''c'']] 0 2) = 2
   \<and> (\<exists>a e. doc_metadata (segment_document False \<lparr>parent = ''data'', name = ''f.xlsx''\<rparr>
                  Map.empty 0 (PStr ''Sheet1'') 2 1 (0, ''c'')) ''batch_start_row'' = Some (PInt a)
            \<and> doc_metadata (segment_document False \<lparr>parent = ''data'', name = ''f.xlsx''\<rparr>
                  Map.empty 0 (PStr ''Sheet1'') 2 1 (0, ''c'')) ''batch_end_row'' = Some (PInt e)
            \<and> 1 \<le> a \<and> e - a + 1 = 1)"
proof -
  let ?r = "ExcelReader_init None [] [] 2 2048"
  let ?df = "[[Some (PStr ''a'')], [None], [Some (PStr ''b'')], [Some (PStr ''c'')]]"
  let ?f = "\<lparr>parent = ''data'', name = ''f.xlsx''\<rparr>"
  let ?d = "segment_document False ?f Map.empty 0 (PStr ''Sheet1'') 2 1 (0, ''c'')"
  have h: "1 \<le> rows_per_doc ?r"
    by (simp add: ExcelReader_init_def)
  have rows: "cleaned_rows ?df = [[''a''], [''b''], [''c'']]"
    by (simp add: cleaned_rows_def dropna_all_def isna_def fillna_def values_astype_str_def)
  have s: "nat (rows_per_doc ?r) = 2"
    by (simp add: ExcelReader_init_def)
  have range: "py_range (length (cleaned_rows ?df)) (rows_per_doc ?r) = Inr [0, 2]"
    by (simp add: rows py_range_def ExcelReader_init_def upt_rec)
  have batch: "batch_documents (\<lambda>content max_tokens. [content]) ?r False ?f Map.empty 0
                 (PStr ''Sheet1'') [[''a''], [''b''], [''c'']] 2 = [?d]"
    by (simp add: batch_documents_def Let_def slice_def render_def strip_def isspace_def
        ExcelReader_init_def)
  from C6_batches_partition [OF h, where df = ?df and extra = Map.empty
      and split = "(\<lambda>content max_tokens. [content])" and inc = False and idx = 0
      and key = "PStr ''Sheet1''", of ?f]
  obtain starts where
    a: "py_range (length (cleaned_rows ?df)) (rows_per_doc ?r) = Inr starts" and
    b: "concat (map (\<lambda>i. slice (cleaned_rows ?df) i (i + nat (rows_per_doc ?r))) starts)
          = cleaned_rows ?df" and
    c: "\<forall>i\<in>set (butlast starts).
          length (slice (cleaned_rows ?df) i (i + nat (rows_per_doc ?r))) = nat (rows_per_doc ?r)" and
    d: "\<forall>i\<in>set starts. \<forall>d\<in>set (batch_documents (\<lambda>content max_tokens. [content]) ?r False ?f
                Map.empty 0 (PStr ''Sheet1'') (cleaned_rows ?df) i).
            \<exists>a e. doc_metadata d ''batch_start_row'' = Some (PInt a)
                \<and> doc_metadata d ''batch_end_row'' = Some (PInt e)
                \<and> 1 \<le> a
                \<and> e - a + 1 = int (length (slice (cleaned_rows ?df) i (i + nat (rows_per_doc ?r))))
                \<and> slice (cleaned_rows ?df) (nat (a - 1)) (nat e)
                    = slice (cleaned_rows ?df) i (i + nat (rows_per_doc ?r))"
    by auto
  from a range have st: "starts = [0, 2]" by simp
  from b have p: "concat (map (\<lambda>i. slice [[''a''], [''b''], [''c'']] i (i + 2)) [0, 2])
       = [[''a''], [''b''], [''c'']]"
    by (simp only: rows s st)
  from c have q: "length (slice [[''a''], [''b''], [''c'']] 0 2) = 2"
    by (simp add: rows s st numeral_2_eq_2)
  from d have "\<forall>d\<in>set (batch_documents (\<lambda>content max_tokens. [content]) ?r False ?f
                Map.empty 0 (PStr ''Sheet1'') [[''a''], [''b''], [''c'']] 2).
            \<exists>a e. doc_metadata d ''batch_start_row'' = Some (PInt a)
                \<and> doc_metadata d ''batch_end_row'' = Some (PInt e)
                \<and> 1 \<le> a
                \<and> e - a + 1 = int (length (slice [[''a''], [''b''], [''c'']] 2 (2 + 2)))"
    unfolding rows s st by auto
  then have m: "\<exists>a e. doc_metadata ?d ''batch_start_row'' = Some (PInt a)
                \<and> doc_metadata ?d ''batch_end_row'' = Some (PInt e)
                \<and> 1 \<le> a \<and> e - a + 1 = 1"
    unfolding batch by (simp add: slice_def)
  from h rows range p q m show ?thesis by blast
qed

text \<open>
  C10. When \<^verbatim>\<open>pd.read_excel\<close> has returned at least one sheet and \<^verbatim>\<open>rows_per_doc\<close> is 0,
  \<^verbatim>\<open>ExcelReader.load_data\<close> raises the ValueError of \<^verbatim>\<open>range\<close> with a zero step and returns
  no document list. With \<^verbatim>\<open>rows_per_doc\<close> at least 1 the call returns a list; with a
  negative \<^verbatim>\<open>rows_per_doc\<close> every range is empty and the call returns the empty list.
\<close>

theorem C10_zero_rows_per_doc:
  assumes "read_excel file (normalize_sheet_name sel) (pandas_config self) = Inr dfs"
  shows "(rows_per_doc self = 0 \<longrightarrow> dfs \<noteq> [] \<longrightarrow>
            ExcelReader_load_data (Some read_excel) split self file inc sel extra_info
              = Inl (ValueError ''range() arg 3 must not be zero''))
       \<and> (1 \<le> rows_per_doc self \<longrightarrow>
            (\<exists>docs. ExcelReader_load_data (Some read_excel) split self file inc sel extra_info
                     = Inr docs))
       \<and> (rows_per_doc self < 0 \<longrightarrow>
            ExcelReader_load_data (Some read_excel) split self file inc sel extra_info = Inr [])"
proof (intro conjI impI)
  assume "rows_per_doc self = 0" "dfs \<noteq> []"
  then show "ExcelReader_load_data (Some read_excel) split self file inc sel extra_info
              = Inl (ValueError ''range() arg 3 must not be zero'')"
    by (simp add: ExcelReader_load_data_def assms sheets_loop_zero)
next
  assume "1 \<le> rows_per_doc self"
  from sheets_loop_pos[OF this] show "\<exists>docs. ExcelReader_load_data (Some read_excel) split self file inc sel extra_info = Inr docs"
    by (simp add: ExcelReader_load_data_def assms)
next
  assume "rows_per_doc self < 0"
  then show "ExcelReader_load_data (Some read_excel) split self file inc sel extra_info = Inr []"
    by (simp add: ExcelReader_load_data_def assms sheets_loop_neg)
qed

theorem C10_witness:
  "ExcelReader_load_data
        (Some (\<lambda>file sheets config. Inr [(PStr ''Sheet1'', [[Some (PStr ''a'')]])]))
        (\<lambda>content max_tokens. [content])
        (ExcelReader_init None [] [] 0 2048)
        \<lparr>parent = ''data'', name = ''f.xlsx''\<rparr> True None None
     = Inl (ValueError ''range() arg 3 must not be zero'')
   \<and> (\<exists>docs. ExcelReader_load_data
        (Some (\<lambda>file sheets config. Inr [(PStr ''Sheet1'', [[Some (PStr ''a'')]])]))
        (\<lambda>content max_tokens. [content])
        (ExcelReader_init None [] [] 1 2048)
        \<lparr>parent = ''data'', name = ''f.xlsx''\<rparr> True None None = Inr docs)
   \<and> ExcelReader_load_data
        (Some (\<lambda>file sheets config. Inr [(PStr ''Sheet1'', [[Some (PStr ''a'')]])]))
        (\<lambda>content max_tokens. [content])
        (ExcelReader_init None [] [] (- 1) 2048)
        \<lparr>parent = ''data'', name = ''f.xlsx''\<rparr> True None None
     = Inr []"
proof -
  let ?rd = "\<lambda>(file::path) (sheets::pyval list option) (config::(string \<times> pyval) list).
               (Inr [(PStr ''Sheet1'', [[Some (PStr ''a'')]])] :: error + (pyval \<times> frame) list)"
  let ?f = "\<lparr>parent = ''data'', name = ''f.xlsx''\<rparr>"
  have r: "?rd ?f (normalize_sheet_name None) (pandas_config (ExcelReader_init None [] [] n 2048))
           = Inr [(PStr ''Sheet1'', [[Some (PStr ''a'')]])]" for n
    by simp
  show ?thesis
    using C10_zero_rows_per_doc [of ?rd ?f None "ExcelReader_init None [] [] 0 2048"
            "[(PStr ''Sheet1'', [[Some (PStr ''a'')]])]" "(\<lambda>content max_tokens. [content])" True None,
            OF r]
      C10_zero_rows_per_doc [of ?rd ?f None "ExcelReader_init None [] [] 1 2048"
            "[(PStr ''Sheet1'', [[Some (PStr ''a'')]])]" "(\<lambda>content max_tokens. [content])" True None,
            OF r]
      C10_zero_rows_per_doc [of ?rd ?f None "ExcelReader_init None [] [] (- 1) 2048"
            "[(PStr ''Sheet1'', [[Some (PStr ''a'')]])]" "(\<lambda>content max_tokens. [content])" True None,
            OF r]
    by (simp add: ExcelReader_init_def)
qed

section \<open>Cleaning and rendering\<close>

text \<open>
  C4 (as amended). A row is excluded from the cleaned row sequence if and only if every
  cell of it is missing in the parsed frame: the cleaned rows are the rows with some cell
  present, in their order, each cell replaced by its text and a missing cell by the empty
  text; so the cleaned rows and the all-missing rows together count the rows of the frame.
  A row whose cells are present but empty text is kept. For the sheet \<^verbatim>\<open>Sheet1\<close> with rows
  \<^verbatim>\<open>[["a","b"],[NaN,NaN],["c","d"]]\<close>, \<^verbatim>\<open>rows_per_doc=1\<close>, the default joiners and budget, and a
  splitter that returns each of \<^verbatim>\<open>"a b"\<close> and \<^verbatim>\<open>"c d"\<close> as its single segment, exactly two
  documents are produced, with (\<^verbatim>\<open>batch_start_row\<close>, \<^verbatim>\<open>batch_end_row\<close>) = (1,1) and (2,2) and
  texts \<^verbatim>\<open>a b\<close> and \<^verbatim>\<open>c d\<close>, each after the provenance line when \<^verbatim>\<open>include_sheetname\<close> is true.
\<close>

theorem C4_rows_dropped_when_all_missing:
  "cleaned_rows df =
     map (map (\<lambda>c. case c of None \<Rightarrow> '''' | Some v \<Rightarrow> py_str v))
       (filter (\<lambda>row. \<exists>c\<in>set row. c \<noteq> None) df)
   \<and> length (cleaned_rows df) + length (filter (\<lambda>row. \<forall>c\<in>set row. c = None) df) = length df
   \<and> (split ''a b'' 2048 = [''a b''] \<longrightarrow> split ''c d'' 2048 = [''c d''] \<longrightarrow>
       read_excel file None [] =
         Inr [(PStr ''Sheet1'',
               [[Some (PStr ''a''), Some (PStr ''b'')], [None, None],
                [Some (PStr ''c''), Some (PStr ''d'')]])] \<longrightarrow>
       (\<exists>d1 d2.
          ExcelReader_load_data (Some read_excel) split (ExcelReader_init None [CHR 0x0A] '' '' 1 2048)
            file inc None None = Inr [d1, d2]
        \<and> doc_text d1 =
            (if inc then ''(Sheet Sheet1 of file '' @ name file @ '')'' @ [CHR 0x0A] else []) @ ''a b''
        \<and> doc_text d2 =
            (if inc then ''(Sheet Sheet1 of file '' @ name file @ '')'' @ [CHR 0x0A] else []) @ ''c d''
        \<and> doc_metadata d1 ''batch_start_row'' = Some (PInt 1)
        \<and> doc_metadata d1 ''batch_end_row'' = Some (PInt 1)
        \<and> doc_metadata d2 ''batch_start_row'' = Some (PInt 2)
        \<and> doc_metadata d2 ''batch_end_row'' = Some (PInt 2)))"
proof (intro conjI impI)
  show "cleaned_rows df =
     map (map (\<lambda>c. case c of None \<Rightarrow> '''' | Some v \<Rightarrow> py_str v))
       (filter (\<lambda>row. \<exists>c\<in>set row. c \<noteq> None) df)"
    by (rule cleaned_rows_filter)
next
  show "length (cleaned_rows df) + length (filter (\<lambda>row. \<forall>c\<in>set row. c = None) df) = length df"
    by (rule cleaned_rows_length)
next
  assume s1: "split ''a b'' 2048 = [''a b'']" and s2: "split ''c d'' 2048 = [''c d'']"
    and r: "read_excel file None [] =
         Inr [(PStr ''Sheet1'',
               [[Some (PStr ''a''), Some (PStr ''b'')], [None, None],
                [Some (PStr ''c''), Some (PStr ''d'')]])]"
  let ?d1 = "segment_document inc file Map.empty 0 (PStr ''Sheet1'') 0 1 (0, ''a b'')"
  let ?d2 = "segment_document inc file Map.empty 0 (PStr ''Sheet1'') 1 1 (0, ''c d'')"
  have run: "ExcelReader_load_data (Some read_excel) split (ExcelReader_init None [CHR 0x0A] '' '' 1 2048)
            file inc None None = Inr [?d1, ?d2]"
    by (simp add: eval_defs r s1 s2)
  show "\<exists>d1 d2.
          ExcelReader_load_data (Some read_excel) split (ExcelReader_init None [CHR 0x0A] '' '' 1 2048)
            file inc None None = Inr [d1, d2]
        \<and> doc_text d1 =
            (if inc then ''(Sheet Sheet1 of file '' @ name file @ '')'' @ [CHR 0x0A] else []) @ ''a b''
        \<and> doc_text d2 =
            (if inc then ''(Sheet Sheet1 of file '' @ name file @ '')'' @ [CHR 0x0A] else []) @ ''c d''
        \<and> doc_metadata d1 ''batch_start_row'' = Some (PInt 1)
        \<and> doc_metadata d1 ''batch_end_row'' = Some (PInt 1)
        \<and> doc_metadata d2 ''batch_start_row'' = Some (PInt 2)
        \<and> doc_metadata d2 ''batch_end_row'' = Some (PInt 2)"
    by (rule exI[of _ ?d1], rule exI[of _ ?d2]) (simp add: run segment_document_def)
qed

theorem C4_witness:
  "cleaned_rows [[Some (PStr ''a''), Some (PStr ''b'')], [None, None],
                 [Some (PStr ''c''), Some (PStr ''d'')]]
     = [[''a'', ''b''], [''c'', ''d'']]
   \<and> map_sum id (map doc_text)
       (ExcelReader_load_data
          (Some (\<lambda>file sheets config.
             Inr [(PStr ''Sheet1'',
                   [[Some (PStr ''a''), Some (PStr ''b'')], [None, None],
                    [Some (PStr ''c''), Some (PStr ''d'')]])]))
          (\<lambda>content max_tokens. [content])
          (ExcelReader_init None [CHR 0x0A] '' '' 1 2048)
          \<lparr>parent = ''data'', name = ''f.xlsx''\<rparr> False None None)
     = Inr [''a b'', ''c d'']"
  using C4_rows_dropped_when_all_missing
    [of "[[Some (PStr ''a''), Some (PStr ''b'')], [None, None],
          [Some (PStr ''c''), Some (PStr ''d'')]]"
        "(\<lambda>content max_tokens. [content])"
        "(\<lambda>file sheets config.
             Inr [(PStr ''Sheet1'',
                   [[Some (PStr ''a''), Some (PStr ''b'')], [None, None],
                    [Some (PStr ''c''), Some (PStr ''d'')]])])"
        "\<lparr>parent = ''data'', name = ''f.xlsx''\<rparr>" False]
  by auto

theorem C4_counterexample:
  "cleaned_rows [[Some (PStr ''a''), Some (PStr ''b'')], [Some (PStr ''''), Some (PStr '''')],
                 [Some (PStr ''c''), Some (PStr ''d'')]]
     = [[''a'', ''b''], ['''', ''''], [''c'', ''d'']]"
  by (simp add: cleaned_rows_def dropna_all_def isna_def fillna_def values_astype_str_def)

text \<open>
  C5 (as amended). For every batch, the text of its documents is the provenance prefix (when
  asked for) followed by a segment of the rendered string, and the rendered string is: each
  row's cells joined with the column-joiner and trimmed of leading and trailing whitespace,
  the trimmed rows joined with the row-joiner, and the whole trimmed again. When no row's
  joined text starts or ends with whitespace, this is the rendering that trims the whole
  string only.
\<close>

theorem C5_rows_trimmed_before_joining:
  "map doc_text (batch_documents split self inc file extra idx key rows i) =
     map (\<lambda>c. (if inc then ''(Sheet '' @ py_str key @ '' of file '' @ name file @ '')'' @ [CHR 0x0A]
                else []) @ c)
       (split
          (strip (join (row_joiner self)
             (map (\<lambda>row. strip (join (col_joiner self) row))
                (slice rows i (i + nat (rows_per_doc self))))))
          (max_words_per_page self))
   \<and> ((\<forall>row\<in>set batch_rows. strip (join (col_joiner self) row) = join (col_joiner self) row) \<longrightarrow>
        render self batch_rows = spec_render (row_joiner self) (col_joiner self) batch_rows)"
proof
  show "map doc_text (batch_documents split self inc file extra idx key rows i) =
     map (\<lambda>c. (if inc then ''(Sheet '' @ py_str key @ '' of file '' @ name file @ '')'' @ [CHR 0x0A]
                else []) @ c)
       (split
          (strip (join (row_joiner self)
             (map (\<lambda>row. strip (join (col_joiner self) row))
                (slice rows i (i + nat (rows_per_doc self))))))
          (max_words_per_page self))"
    using batch_documents_text[of split self inc "file" extra idx key rows i]
    by (simp only: render_def)
next
  show "(\<forall>row\<in>set batch_rows. strip (join (col_joiner self) row) = join (col_joiner self) row) \<longrightarrow>
        render self batch_rows = spec_render (row_joiner self) (col_joiner self) batch_rows"
  proof
    assume "\<forall>row\<in>set batch_rows. strip (join (col_joiner self) row) = join (col_joiner self) row"
    then have "map (\<lambda>row. strip (join (col_joiner self) row)) batch_rows
                 = map (join (col_joiner self)) batch_rows"
      by simp
    then show "render self batch_rows = spec_render (row_joiner self) (col_joiner self) batch_rows"
      by (simp only: render_def spec_render_def)
  qed
qed

theorem C5_counterexample:
  "map_sum id (map doc_text)
     (ExcelReader_load_data
        (Some (\<lambda>file sheets config.
           Inr [(PStr ''Sheet1'', [[Some (PStr ''a '')], [Some (PStr '' b'')]])]))
        (\<lambda>content max_tokens. [content])
        (ExcelReader_init None [CHR 0x0A] '' '' 2 2048)
        \<lparr>parent = ''data'', name = ''f.xlsx''\<rparr> False None None)
     = Inr [[CHR ''a'', CHR 0x0A, CHR ''b'']]
   \<and> spec_render [CHR 0x0A] '' '' [[''a ''], ['' b'']]
     = [CHR ''a'', CHR '' '', CHR 0x0A, CHR '' '', CHR ''b'']"
  by (simp add: eval_defs segment_document_def spec_render_def)

theorem C5_witness:
  "map doc_text
     (batch_documents (\<lambda>content max_tokens. [content]) (ExcelReader_init None [CHR 0x0A] '' '' 2 2048)
        False \<lparr>parent = ''data'', name = ''f.xlsx''\<rparr> Map.empty 0 (PStr ''Sheet1'')
        [[''a '', ''b''], [''c'', ''d '']] 0)
     = [[CHR ''a'', CHR '' '', CHR '' '', CHR ''b'', CHR 0x0A, CHR ''c'', CHR '' '', CHR ''d'']]
   \<and> render (ExcelReader_init None [CHR 0x0A] '' '' 2 2048) [[''a'', ''b''], [''c'', ''d'']]
     = spec_render [CHR 0x0A] '' '' [[''a'', ''b''], [''c'', ''d'']]"
  using C5_rows_trimmed_before_joining [of "(\<lambda>content max_tokens. [content])"
      "ExcelReader_init None [CHR 0x0A] '' '' 2 2048" False
      "\<lparr>parent = ''data'', name = ''f.xlsx''\<rparr>" Map.empty 0
      "PStr ''Sheet1''" "[[''a '', ''b''], [''c'', ''d '']]" 0
      "[[''a'', ''b''], [''c'', ''d'']]"]
  by (simp add: ExcelReader_init_def slice_def strip_def isspace_def)

section \<open>The legacy loader\<close>

text \<open>
  C9. Every successful call to \<^verbatim>\<open>PandasExcelReader.load_data\<close> returns exactly one document.
  Its text is made of the lines of all sheets in source order, joined with the row-joiner:
  per sheet an optional leading line with the sheet name (when \<^verbatim>\<open>include_sheetname\<close> is
  true) and then the cleaned rows, each joined cell-wise with the column-joiner. Its
  metadata is \<^verbatim>\<open>extra_info\<close> (or the empty dict), with nothing per sheet.
\<close>

theorem C9_legacy_single_document:
  assumes "PandasExcelReader_load_data (Some read_excel) self file inc sel extra_info = Inr docs"
    and "read_excel file (normalize_sheet_name sel) (pandas_config self) = Inr dfs"
  shows "docs = [\<lparr> doc_text = spec_legacy_text (row_joiner self) (col_joiner self) inc dfs,
                   doc_metadata = (case extra_info of None \<Rightarrow> Map.empty | Some m \<Rightarrow> m) \<rparr>]"
proof -
  from assms obtain ls where
    ls: "collect (map (py_join (col_joiner self)) (concat (map (legacy_sheet inc) dfs))) = Inr ls"
    and docs: "docs = [\<lparr> doc_text = join (row_joiner self) ls,
                   doc_metadata = (case extra_info of None \<Rightarrow> Map.empty | Some m \<Rightarrow> m) \<rparr>]"
    by (auto simp: PandasExcelReader_load_data_def Let_def split: sum.splits)
  from legacy_lines[OF ls] docs show ?thesis
    by (simp add: spec_legacy_text_def)
qed

theorem C9_witness:
  "PandasExcelReader_load_data
     (Some (\<lambda>file sheets config.
        Inr [(PStr ''S1'', [[Some (PStr ''a''), Some (PInt 12)], [None, None]]),
             (PStr ''S2'', [[None, Some (PStr ''c'')]])]))
     (PandasExcelReader_init None [] [])
     \<lparr>parent = ''data'', name = ''f.xlsx''\<rparr> True None None
   = Inr [\<lparr> doc_text = [CHR ''S'', CHR ''1'', CHR 0x0A, CHR ''a'', CHR '' '', CHR ''1'', CHR ''2'',
                         CHR 0x0A, CHR ''S'', CHR ''2'', CHR 0x0A, CHR '' '', CHR ''c''],
            doc_metadata = Map.empty \<rparr>]"
proof -
  let ?rd = "\<lambda>(file::path) (sheets::pyval list option) (config::(string \<times> pyval) list).
        (Inr [(PStr ''S1'', [[Some (PStr ''a''), Some (PInt 12)], [None, None]]),
             (PStr ''S2'', [[None, Some (PStr ''c'')]])] :: error + (pyval \<times> frame) list)"
  have run: "\<exists>docs. PandasExcelReader_load_data (Some ?rd) (PandasExcelReader_init None [] [])
     \<lparr>parent = ''data'', name = ''f.xlsx''\<rparr> True None None = Inr docs"
    by (simp add: PandasExcelReader_load_data_def PandasExcelReader_init_def legacy_sheet_def
        cleaned_rows_def dropna_all_def isna_def fillna_def values_astype_str_def py_join_def
        str_int_def str_nat.simps)
  then obtain docs where docs: "PandasExcelReader_load_data (Some ?rd) (PandasExcelReader_init None [] [])
     \<lparr>parent = ''data'', name = ''f.xlsx''\<rparr> True None None = Inr docs" ..
  have r: "?rd \<lparr>parent = ''data'', name = ''f.xlsx''\<rparr> (normalize_sheet_name None)
             (pandas_config (PandasExcelReader_init None [] []))
           = Inr [(PStr ''S1'', [[Some (PStr ''a''), Some (PInt 12)], [None, None]]),
             (PStr ''S2'', [[None, Some (PStr ''c'')]])]"
    by simp
  from C9_legacy_single_document [OF docs r] docs show ?thesis
    by (simp add: spec_legacy_text_def spec_legacy_lines_def PandasExcelReader_init_def
        cleaned_rows_def dropna_all_def isna_def fillna_def values_astype_str_def
        str_int_def str_nat.simps)
qed

section \<open>Segments of a batch\<close>




text \<open>
  C3. For the token-budget split modelled above: the texts of a batch's documents are the
  segments, each after the optional provenance prefix, and the token count of every
  segment, counted on the segment's own text before the prefix is added, is at most
  \<^verbatim>\<open>max_words_per_page\<close>, whatever the budget is.
\<close>

theorem C3_segments_within_budget:
  "map doc_text (batch_documents split_text self inc file extra idx key rows i)
     = map (\<lambda>c. (if inc then ''(Sheet '' @ py_str key @ '' of file '' @ name file @ '')''
                               @ [CHR 0x0A]
                    else []) @ c)
         (split_text (render self (slice rows i (i + nat (rows_per_doc self))))
            (max_words_per_page self))
   \<and> (\<forall>c\<in>set (split_text (render self (slice rows i (i + nat (rows_per_doc self))))
                  (max_words_per_page self)).
         int (token_count c) \<le> max_words_per_page self)"
proof
  show "map doc_text (batch_documents split_text self inc file extra idx key rows i)
     = map (\<lambda>c. (if inc then ''(Sheet '' @ py_str key @ '' of file '' @ name file @ '')''
                               @ [CHR 0x0A]
                    else []) @ c)
         (split_text (render self (slice rows i (i + nat (rows_per_doc self))))
            (max_words_per_page self))"
    by (rule batch_documents_text)
next
  show "\<forall>c\<in>set (split_text (render self (slice rows i (i + nat (rows_per_doc self))))
                  (max_words_per_page self)).
         int (token_count c) \<le> max_words_per_page self"
    by (auto intro: split_text_budget)
qed

theorem C3_witness:
  "split_text
     (render (ExcelReader_init None [] [] 1 2)
        (slice [[''ab cd e'']] 0 (0 + nat (rows_per_doc (ExcelReader_init None [] [] 1 2)))))
     (max_words_per_page (ExcelReader_init None [] [] 1 2))
     = [''ab cd '', ''e'']
   \<and> token_count ''ab cd '' = 2
   \<and> int (token_count ''ab cd '') \<le> max_words_per_page (ExcelReader_init None [] [] 1 2)
   \<and> int (token_count ''e'') \<le> max_words_per_page (ExcelReader_init None [] [] 1 2)"
proof -
  let ?r = "ExcelReader_init None [] [] 1 2"
  let ?c = "render ?r (slice [[''ab cd e'']] 0 (0 + nat (rows_per_doc ?r)))"
  have ev: "split_text ?c (max_words_per_page ?r) = [''ab cd '', ''e'']"
    by (simp add: split_text_def chunks.simps render_def slice_def strip_def isspace_def
        ExcelReader_init_def)
  have n: "token_count ''ab cd '' = 2"
    by (simp add: token_count_def isspace_def)
  from C3_segments_within_budget [of ?r False "\<lparr>parent = ''data'', name = ''f.xlsx''\<rparr>"
      Map.empty 0 "PStr ''Sheet1''" "[[''ab cd e'']]" 0]
  have "\<forall>c\<in>set [''ab cd '', ''e'']. int (token_count c) \<le> max_words_per_page ?r"
    unfolding ev by (rule conjunct2)
  then have "int (token_count ''ab cd '') \<le> max_words_per_page ?r
           \<and> int (token_count ''e'') \<le> max_words_per_page ?r"
    by simp
  with ev n show ?thesis by simp
qed

text \<open>
  C7. For the token-budget split modelled above: a batch whose rendered text is the empty
  string has zero segments, and \<^verbatim>\<open>ExcelReader.load_data\<close> emits zero documents for it,
  whatever the budget is.
\<close>

theorem C7_empty_text_no_segments:
  assumes "render self (slice rows i (i + nat (rows_per_doc self))) = []"
  shows "split_text (render self (slice rows i (i + nat (rows_per_doc self))))
           (max_words_per_page self) = []
       \<and> batch_documents split_text self inc file extra idx key rows i = []"
  by (simp add: batch_documents_def Let_def assms split_text_empty)

theorem C7_witness:
  "render (ExcelReader_init None [] [] 1 2048)
     (slice [['' '', []]] 0 (0 + nat (rows_per_doc (ExcelReader_init None [] [] 1 2048)))) = []
   \<and> batch_documents split_text (ExcelReader_init None [] [] 1 2048) True
        \<lparr>parent = ''data'', name = ''f.xlsx''\<rparr> Map.empty 0 (PStr ''Sheet1'') [['' '', []]] 0
     = []"
proof -
  let ?r = "ExcelReader_init None [] [] 1 2048"
  have h: "render ?r (slice [['' '', []]] 0 (0 + nat (rows_per_doc ?r))) = []"
    by (simp add: render_def slice_def strip_def isspace_def ExcelReader_init_def)
  from C7_empty_text_no_segments [of ?r "[['' '', []]]" 0 True
      "\<lparr>parent = ''data'', name = ''f.xlsx''\<rparr>" Map.empty 0 "PStr ''Sheet1''", OF h] h
  show ?thesis by blast
qed

end
